theory Spec2Isabelle
  imports Complex_Main "HOL-Library.Sublist"
begin

section \<open>Python values used by the services\<close>

text \<open>
  Python \<^verbatim>\<open>str\<close> values are modelled as \<^typ>\<open>string\<close>; every character is an ASCII
  code unit, so \<^verbatim>\<open>len\<close> is \<^const>\<open>length\<close> and \<^verbatim>\<open>re.IGNORECASE\<close> folds the
  letters A-Z only. \<^verbatim>\<open>Optional[str]\<close> is \<^typ>\<open>string option\<close>, Python integers are
  \<^typ>\<open>int\<close>.
\<close>

datatype error = TypeError string | ZeroDivisionError

text \<open>Truthiness of \<^verbatim>\<open>Optional[str]\<close>: \<^verbatim>\<open>None\<close> and the empty string are false.\<close>

definition truthy_str :: "string option \<Rightarrow> bool" where
  "truthy_str s = (case s of None \<Rightarrow> False | Some t \<Rightarrow> t \<noteq> [])"

text \<open>\<^verbatim>\<open>a or ""\<close> on an optional string.\<close>

definition or_empty :: "string option \<Rightarrow> string" where
  "or_empty s = (case s of None \<Rightarrow> [] | Some t \<Rightarrow> t)"

text \<open>
  Slicing \<^verbatim>\<open>xs[lo:hi]\<close> with Python's index normalisation: a negative bound counts
  from the end, and both bounds are clipped to the sequence.
\<close>

definition clamp_index :: "nat \<Rightarrow> int \<Rightarrow> nat" where
  "clamp_index n i = (if i < 0 then nat (max 0 (int n + i)) else min n (nat i))"

definition py_slice :: "'a list \<Rightarrow> int \<Rightarrow> int \<Rightarrow> 'a list" where
  "py_slice xs lo hi =
     (let a = clamp_index (length xs) lo; b = clamp_index (length xs) hi
      in take (b - a) (drop a xs))"

text \<open>\<^verbatim>\<open>str.lower\<close> on one ASCII character.\<close>

definition lower_char :: "char \<Rightarrow> char" where
  "lower_char c =
     (case map_of (zip ''ABCDEFGHIJKLMNOPQRSTUVWXYZ'' ''abcdefghijklmnopqrstuvwxyz'') c of
        None \<Rightarrow> c | Some d \<Rightarrow> d)"

text \<open>The ASCII characters for which \<^verbatim>\<open>str.isspace\<close> holds.\<close>

definition is_space :: "char \<Rightarrow> bool" where
  "is_space c = (c \<in> set [CHR 0x09, CHR 0x0A, CHR 0x0B, CHR 0x0C, CHR 0x0D,
                            CHR 0x1C, CHR 0x1D, CHR 0x1E, CHR 0x1F, CHR 0x20])"

text \<open>\<^verbatim>\<open>str.split()\<close> without arguments: runs of whitespace separate, no empty pieces.\<close>

fun split_ws :: "string \<Rightarrow> string \<Rightarrow> string list" where
  "split_ws cur [] = (if cur = [] then [] else [cur])"
| "split_ws cur (c # cs) =
     (if is_space c then (if cur = [] then split_ws [] cs else cur # split_ws [] cs)
      else split_ws (cur @ [c]) cs)"

definition py_split :: "string \<Rightarrow> string list" where
  "py_split s = split_ws [] s"

definition strip :: "string \<Rightarrow> string" where
  "strip s = rev (dropWhile is_space (rev (dropWhile is_space s)))"

section \<open>services/highlight.py\<close>

text \<open>
  A pattern built by \<^verbatim>\<open>re.escape\<close> matches its token literally; under
  \<^verbatim>\<open>re.IGNORECASE\<close> the token matches at the head of the text when the characters
  agree after folding.
\<close>

fun ci_prefix :: "string \<Rightarrow> string \<Rightarrow> bool" where
  "ci_prefix [] s = True"
| "ci_prefix (p # ps) [] = False"
| "ci_prefix (p # ps) (c # cs) = (lower_char p = lower_char c \<and> ci_prefix ps cs)"

text \<open>
  \<^verbatim>\<open>re.search("|".join(...), text, re.IGNORECASE)\<close>: the result is \<^verbatim>\<open>match.start()\<close>,
  the leftmost position at which one of the alternatives matches.
\<close>

fun re_search :: "string list \<Rightarrow> string \<Rightarrow> nat option" where
  "re_search tokens [] = (if list_ex (\<lambda>t. ci_prefix t []) tokens then Some 0 else None)"
| "re_search tokens (c # cs) =
     (if list_ex (\<lambda>t. ci_prefix t (c # cs)) tokens then Some 0
      else map_option Suc (re_search tokens cs))"

text \<open>
  \<^verbatim>\<open>re.sub(f"({re.escape(token)})", rf"<{tag}>\1</{tag}>", snippet, flags=re.IGNORECASE)\<close>:
  the non-overlapping matches are replaced from left to right, the matched characters
  are kept as they are in the text. The tag is taken without backslashes, so the
  replacement template has no escape besides the group reference.
\<close>

fun re_sub :: "string \<Rightarrow> string \<Rightarrow> string \<Rightarrow> string" where
  "re_sub tag [] s =
     (''<'' @ tag @ ''></'' @ tag @ ''>'') @
     concat (map (\<lambda>c. c # (''<'' @ tag @ ''></'' @ tag @ ''>'')) s)"
| "re_sub tag (t # ts) [] = []"
| "re_sub tag (t # ts) (c # cs) =
     (if ci_prefix (t # ts) (c # cs)
      then ''<'' @ tag @ ''>'' @ (c # take (length ts) cs) @ ''</'' @ tag @ ''>'' @
           re_sub tag (t # ts) (drop (length ts) cs)
      else c # re_sub tag (t # ts) cs)"

definition query_tokens :: "string \<Rightarrow> string list" where
  "query_tokens query = map strip (filter (\<lambda>t. strip t \<noteq> []) (py_split query))"

definition truncate_text :: "string \<Rightarrow> int \<Rightarrow> string" where
  "truncate_text text max_length =
     (if int (length text) > max_length then py_slice text 0 max_length @ ''...'' else text)"

definition snippet_window :: "string list \<Rightarrow> string \<Rightarrow> int \<Rightarrow> int \<times> int" where
  "snippet_window tokens text max_length =
     (case re_search tokens text of
        Some m \<Rightarrow> (let start = max 0 (int m - max_length div 3) in (start, start + max_length))
      | None \<Rightarrow> (0, max_length))"

definition add_ellipsis :: "string \<Rightarrow> int \<Rightarrow> int \<Rightarrow> string \<Rightarrow> string" where
  "add_ellipsis text start end snippet =
     (let snippet = (if start > 0 then ''...'' @ snippet else snippet);
          snippet = (if end < int (length text) then snippet @ ''...'' else snippet)
      in snippet)"

definition windowed_snippet :: "string list \<Rightarrow> string \<Rightarrow> int \<Rightarrow> string" where
  "windowed_snippet tokens text max_length =
     (case snippet_window tokens text max_length of
        (start, end) \<Rightarrow> add_ellipsis text start end (py_slice text start end))"

definition wrap_tokens :: "string \<Rightarrow> string list \<Rightarrow> string \<Rightarrow> string" where
  "wrap_tokens tag tokens snippet = foldl (\<lambda>s token. re_sub tag token s) snippet tokens"

definition highlight_snippet :: "string option \<Rightarrow> string \<Rightarrow> int \<Rightarrow> string \<Rightarrow> string option" where
  "highlight_snippet text query max_length tag =
     (case text of
        None \<Rightarrow> None
      | Some t \<Rightarrow>
          if t = [] \<or> query = [] then
            (if t \<noteq> [] \<and> int (length t) > max_length
             then Some (py_slice t 0 max_length @ ''...'') else Some t)
          else
            (let tokens = query_tokens query in
             if tokens = [] then Some (truncate_text t max_length)
             else Some (wrap_tokens tag tokens (windowed_snippet tokens t max_length))))"

section \<open>database.py: the record store\<close>

text \<open>
  A row of the table \<^verbatim>\<open>cases\<close>. Only \<^verbatim>\<open>id\<close> and \<^verbatim>\<open>title\<close> are not nullable.
  The store is the list of its rows, in the order the database returns them.
\<close>

record case_row =
  case_id :: string
  case_title :: string
  case_citation :: "string option"
  case_court :: "string option"
  case_date :: "string option"
  case_year :: "int option"
  case_judges :: "string option"
  case_headnote :: "string option"
  case_text :: "string option"

text \<open>
  SQL \<^verbatim>\<open>LIKE\<close>: \<^verbatim>\<open>%\<close> matches any run of characters, \<^verbatim>\<open>_\<close> any single one.
  \<^verbatim>\<open>ilike\<close> compares the lower-cased column with the lower-cased pattern. A comparison
  with a \<^verbatim>\<open>NULL\<close> column is not true, so the row is not selected by it.
\<close>

fun like_match :: "string \<Rightarrow> string \<Rightarrow> bool" where
  "like_match [] s = (s = [])"
| "like_match (p # ps) [] = (p = CHR ''%'' \<and> like_match ps [])"
| "like_match (p # ps) (c # cs) =
     (if p = CHR ''%'' then like_match ps (c # cs) \<or> like_match (p # ps) cs
      else (p = CHR ''_'' \<or> p = c) \<and> like_match ps cs)"

definition ilike :: "string option \<Rightarrow> string \<Rightarrow> bool" where
  "ilike col pattern =
     (case col of None \<Rightarrow> False
      | Some s \<Rightarrow> like_match (map lower_char pattern) (map lower_char s))"

definition like_term :: "string \<Rightarrow> string" where
  "like_term query = ''%'' @ query @ ''%''"

fun str_le :: "string \<Rightarrow> string \<Rightarrow> bool" where
  "str_le [] s = True"
| "str_le (a # as) [] = False"
| "str_le (a # as) (b # bs) =
     ((of_char a :: nat) < of_char b \<or> (a = b \<and> str_le as bs))"

definition sql_eq :: "int option \<Rightarrow> int \<Rightarrow> bool" where
  "sql_eq col v = (case col of None \<Rightarrow> False | Some x \<Rightarrow> x = v)"

definition sql_ge :: "string option \<Rightarrow> string \<Rightarrow> bool" where
  "sql_ge col v = (case col of None \<Rightarrow> False | Some x \<Rightarrow> str_le v x)"

definition sql_le :: "string option \<Rightarrow> string \<Rightarrow> bool" where
  "sql_le col v = (case col of None \<Rightarrow> False | Some x \<Rightarrow> str_le x v)"

text \<open>\<^verbatim>\<open>stmt.where(and_(*conditions))\<close>, applied only when there is a condition.\<close>

definition select_where :: "(case_row \<Rightarrow> bool) list \<Rightarrow> case_row list \<Rightarrow> case_row list" where
  "select_where conditions db =
     (if conditions \<noteq> [] then filter (\<lambda>c. list_all (\<lambda>p. p c) conditions) db else db)"

text \<open>
  \<^verbatim>\<open>OFFSET\<close> and \<^verbatim>\<open>LIMIT\<close> as in SQLite, the configured database: a negative offset
  skips nothing and a negative limit is no limit.
\<close>

definition sql_offset :: "int \<Rightarrow> 'a list \<Rightarrow> 'a list" where
  "sql_offset n xs = drop (nat n) xs"

definition sql_limit :: "int \<Rightarrow> 'a list \<Rightarrow> 'a list" where
  "sql_limit n xs = (if n < 0 then xs else take (nat n) xs)"

section \<open>services/search.py\<close>

record case_response =
  resp_id :: string
  resp_title :: string
  resp_citation :: "string option"
  resp_court :: "string option"
  resp_date :: "string option"
  resp_snippet :: "string option"
  resp_relevance :: rat

record search_response =
  sr_total :: int
  sr_page :: int
  sr_per_page :: int
  sr_total_pages :: int
  sr_results :: "case_response list"

definition search_conditions ::
  "string \<Rightarrow> string option \<Rightarrow> int option \<Rightarrow> string option \<Rightarrow> string option
     \<Rightarrow> (case_row \<Rightarrow> bool) list" where
  "search_conditions query court year date_from date_to =
     (if query \<noteq> [] then
        [\<lambda>c. ilike (Some (case_title c)) (like_term query) \<or>
              ilike (case_headnote c) (like_term query) \<or>
              ilike (case_text c) (like_term query) \<or>
              ilike (case_citation c) (like_term query)]
      else []) @
     (case court of Some ct \<Rightarrow> if ct \<noteq> [] then [\<lambda>c. ilike (case_court c) (like_term ct)] else []
      | None \<Rightarrow> []) @
     (case year of Some y \<Rightarrow> if y \<noteq> 0 then [\<lambda>c. sql_eq (case_year c) y] else []
      | None \<Rightarrow> []) @
     (case date_from of Some d \<Rightarrow> if d \<noteq> [] then [\<lambda>c. sql_ge (case_date c) d] else []
      | None \<Rightarrow> []) @
     (case date_to of Some d \<Rightarrow> if d \<noteq> [] then [\<lambda>c. sql_le (case_date c) d] else []
      | None \<Rightarrow> [])"

text \<open>\<^verbatim>\<open>case.headnote or (case.text[:300] + "..." if case.text else None)\<close>\<close>

definition make_snippet :: "case_row \<Rightarrow> string option" where
  "make_snippet c =
     (if truthy_str (case_headnote c) then case_headnote c
      else (case case_text c of
              None \<Rightarrow> None
            | Some t \<Rightarrow> if t \<noteq> [] then Some (py_slice t 0 300 @ ''...'') else None))"

definition format_result :: "case_row \<Rightarrow> case_response" where
  "format_result c =
     \<lparr>resp_id = case_id c, resp_title = case_title c, resp_citation = case_citation c,
      resp_court = case_court c, resp_date = case_date c, resp_snippet = make_snippet c,
      resp_relevance = 1\<rparr>"

definition search_cases ::
  "case_row list \<Rightarrow> string \<Rightarrow> string option \<Rightarrow> int option \<Rightarrow> string option \<Rightarrow> string option
     \<Rightarrow> int \<Rightarrow> int \<Rightarrow> error + search_response" where
  "search_cases db query court year date_from date_to page per_page =
     (let stmt = select_where (search_conditions query court year date_from date_to) db;
          total = int (length stmt);
          offset = (page - 1) * per_page;
          cases = sql_limit per_page (sql_offset offset stmt);
          results = map format_result cases
      in if per_page = 0 then Inl ZeroDivisionError
         else Inr \<lparr>sr_total = total, sr_page = page, sr_per_page = per_page,
                   sr_total_pages = (total + per_page - 1) div per_page,
                   sr_results = results\<rparr>)"

section \<open>main.py: the search endpoint\<close>

definition per_page_default :: int where "per_page_default = 20"
definition per_page_max :: int where "per_page_max = 100"

text \<open>
  The parameters \<^verbatim>\<open>search_cases\<close> declares. A call that passes a keyword the callee
  does not declare raises \<^verbatim>\<open>TypeError\<close> before the body runs.
\<close>

definition search_cases_params :: "string list" where
  "search_cases_params =
     [''db'', ''query'', ''court'', ''year'', ''date_from'', ''date_to'', ''page'', ''per_page'']"

fun bind_keywords :: "string list \<Rightarrow> string list \<Rightarrow> error + unit" where
  "bind_keywords params [] = Inr ()"
| "bind_keywords params (k # ks) =
     (if k \<in> set params then bind_keywords params ks else Inl (TypeError k))"

definition search ::
  "case_row list \<Rightarrow> string \<Rightarrow> string option \<Rightarrow> int option \<Rightarrow> string option \<Rightarrow> string option
     \<Rightarrow> int \<Rightarrow> int option \<Rightarrow> bool \<Rightarrow> error + search_response" where
  "search db q court year date_from date_to page per_page highlight =
     (let per_page = (case per_page of Some n \<Rightarrow> if n \<noteq> 0 then n else per_page_default
                      | None \<Rightarrow> per_page_default);
          per_page = min per_page per_page_max
      in case bind_keywords search_cases_params
                [''db'', ''query'', ''court'', ''year'', ''date_from'', ''date_to'', ''page'',
                 ''per_page'', ''highlight''] of
           Inl e \<Rightarrow> Inl e
         | Inr u \<Rightarrow> search_cases db q court year date_from date_to page per_page)"

section \<open>services/export.py\<close>

definition MAX_EXPORT_ROWS :: int where
  "MAX_EXPORT_ROWS = 10000"

definition export_conditions ::
  "string \<Rightarrow> string option \<Rightarrow> int option \<Rightarrow> string option \<Rightarrow> string option
     \<Rightarrow> (case_row \<Rightarrow> bool) list" where
  "export_conditions query court year date_from date_to =
     (if query \<noteq> [] then
        [\<lambda>c. ilike (Some (case_title c)) (like_term query) \<or>
              ilike (case_headnote c) (like_term query) \<or>
              ilike (case_text c) (like_term query) \<or>
              ilike (case_citation c) (like_term query)]
      else []) @
     (case court of Some ct \<Rightarrow> if ct \<noteq> [] then [\<lambda>c. ilike (case_court c) (like_term ct)] else []
      | None \<Rightarrow> []) @
     (case year of Some y \<Rightarrow> if y \<noteq> 0 then [\<lambda>c. sql_eq (case_year c) y] else []
      | None \<Rightarrow> []) @
     (case date_from of Some d \<Rightarrow> if d \<noteq> [] then [\<lambda>c. sql_ge (case_date c) d] else []
      | None \<Rightarrow> []) @
     (case date_to of Some d \<Rightarrow> if d \<noteq> [] then [\<lambda>c. sql_le (case_date c) d] else []
      | None \<Rightarrow> [])"

definition fetch_export_rows ::
  "case_row list \<Rightarrow> string \<Rightarrow> string option \<Rightarrow> int option \<Rightarrow> string option \<Rightarrow> string option
     \<Rightarrow> int \<Rightarrow> case_row list" where
  "fetch_export_rows db query court year date_from date_to limit =
     sql_limit (min limit MAX_EXPORT_ROWS)
       (select_where (export_conditions query court year date_from date_to) db)"

text \<open>\<^verbatim>\<open>str(n)\<close> for an integer.\<close>

definition digit_char :: "nat \<Rightarrow> char" where
  "digit_char d = ''0123456789abcdef'' ! d"

fun str_nat :: "nat \<Rightarrow> string" where
  "str_nat n = (if n < 10 then [digit_char n] else str_nat (n div 10) @ [digit_char (n mod 10)])"

declare str_nat.simps [simp del]

definition str_int :: "int \<Rightarrow> string" where
  "str_int i = (if i < 0 then CHR ''-'' # str_nat (nat (- i)) else str_nat (nat i))"

text \<open>\<^verbatim>\<open>sep.join(parts)\<close>\<close>

fun join :: "string \<Rightarrow> string list \<Rightarrow> string" where
  "join sep [] = []"
| "join sep [x] = x"
| "join sep (x # y # ys) = x @ sep @ join sep (y # ys)"

text \<open>
  \<^verbatim>\<open>csv.writer\<close> with the default dialect: fields are separated by a comma, a row ends
  with CR LF, and a field holding a comma, a double quote, CR or LF is put in double
  quotes with its double quotes doubled. A row of one empty field is written as two
  double quotes.
\<close>

definition dquote :: char where
  "dquote = CHR 0x22"

definition csv_special :: "char \<Rightarrow> bool" where
  "csv_special c = (c = CHR '','' \<or> c = dquote \<or> c = CHR 0x0D \<or> c = CHR 0x0A)"

definition csv_field :: "string \<Rightarrow> string" where
  "csv_field f =
     (if list_ex csv_special f
      then dquote # concat (map (\<lambda>c. if c = dquote then [dquote, dquote] else [c]) f) @ [dquote]
      else f)"

definition writerow :: "string list \<Rightarrow> string" where
  "writerow row =
     (if row = [[]] then [dquote, dquote] else join '','' (map csv_field row))
     @ [CHR 0x0D, CHR 0x0A]"

definition csv_header :: "string list" where
  "csv_header =
     [''id'', ''title'', ''citation'', ''court'', ''date'', ''year'', ''judges'', ''headnote'']"

definition csv_row :: "case_row \<Rightarrow> string list" where
  "csv_row c =
     [case_id c,
      case_title c,
      or_empty (case_citation c),
      or_empty (case_court c),
      or_empty (case_date c),
      (case case_year c of None \<Rightarrow> [] | Some y \<Rightarrow> if y \<noteq> 0 then str_int y else []),
      or_empty (case_judges c),
      py_slice (or_empty (case_headnote c)) 0 500]"

definition export_cases_csv ::
  "case_row list \<Rightarrow> string \<Rightarrow> string option \<Rightarrow> int option \<Rightarrow> string option \<Rightarrow> string option
     \<Rightarrow> int \<Rightarrow> string \<times> int" where
  "export_cases_csv db query court year date_from date_to limit =
     (let cases = fetch_export_rows db query court year date_from date_to limit;
          buf = writerow csv_header @ concat (map (\<lambda>c. writerow (csv_row c)) cases)
      in (buf, int (length cases)))"

text \<open>
  \<^verbatim>\<open>json.dumps(obj, ensure_ascii=False)\<close> on a dictionary of strings, integers and
  \<^verbatim>\<open>None\<close>: the string escapes are those of the standard encoder.
\<close>

datatype json_value = JNull | JInt int | JStr string

definition backslash :: char where
  "backslash = CHR 0x5C"

definition json_escape_char :: "char \<Rightarrow> string" where
  "json_escape_char c =
     (if c = dquote then [backslash, dquote]
      else if c = backslash then [backslash, backslash]
      else if c = CHR 0x0A then [backslash, CHR ''n'']
      else if c = CHR 0x0D then [backslash, CHR ''r'']
      else if c = CHR 0x09 then [backslash, CHR ''t'']
      else if c = CHR 0x08 then [backslash, CHR ''b'']
      else if c = CHR 0x0C then [backslash, CHR ''f'']
      else if (of_char c :: nat) < 32
        then [backslash, CHR ''u'', CHR ''0'', CHR ''0'',
              digit_char (of_char c div 16), digit_char (of_char c mod 16)]
      else [c])"

definition json_string :: "string \<Rightarrow> string" where
  "json_string s = dquote # concat (map json_escape_char s) @ [dquote]"

fun json_dumps_value :: "json_value \<Rightarrow> string" where
  "json_dumps_value JNull = ''null''"
| "json_dumps_value (JInt i) = str_int i"
| "json_dumps_value (JStr s) = json_string s"

definition json_dumps :: "(string \<times> json_value) list \<Rightarrow> string" where
  "json_dumps obj =
     ''{'' @ join '', '' (map (\<lambda>(k, v). json_string k @ '': '' @ json_dumps_value v) obj) @ ''}''"

definition json_opt_str :: "string option \<Rightarrow> json_value" where
  "json_opt_str s = (case s of None \<Rightarrow> JNull | Some t \<Rightarrow> JStr t)"

definition case_obj :: "case_row \<Rightarrow> (string \<times> json_value) list" where
  "case_obj c =
     [(''id'', JStr (case_id c)),
      (''title'', JStr (case_title c)),
      (''citation'', json_opt_str (case_citation c)),
      (''court'', json_opt_str (case_court c)),
      (''date'', json_opt_str (case_date c)),
      (''year'', (case case_year c of None \<Rightarrow> JNull | Some y \<Rightarrow> JInt y)),
      (''judges'', json_opt_str (case_judges c)),
      (''headnote'', json_opt_str (case_headnote c))]"

definition export_cases_jsonl ::
  "case_row list \<Rightarrow> string \<Rightarrow> string option \<Rightarrow> int option \<Rightarrow> string option \<Rightarrow> string option
     \<Rightarrow> int \<Rightarrow> string \<times> int" where
  "export_cases_jsonl db query court year date_from date_to limit =
     (let cases = fetch_export_rows db query court year date_from date_to limit;
          lines = map (\<lambda>c. json_dumps (case_obj c)) cases
      in (join [CHR 0x0A] lines, int (length cases)))"

section \<open>services/stats.py and the courts list of main.py\<close>

text \<open>
  \<^verbatim>\<open>GROUP BY court\<close> with \<^verbatim>\<open>count(id)\<close>: one group for every distinct value of the
  column, \<^verbatim>\<open>NULL\<close> being one value; \<^verbatim>\<open>ORDER BY count DESC\<close> sorts the groups.
\<close>

fun group_count :: "'k list \<Rightarrow> ('k \<times> nat) list" where
  "group_count [] = []"
| "group_count (k # ks) =
     (k, Suc (length (filter (\<lambda>x. x = k) ks))) # group_count (filter (\<lambda>x. x \<noteq> k) ks)"

definition order_by_count_desc :: "('k \<times> nat) list \<Rightarrow> ('k \<times> nat) list" where
  "order_by_count_desc rows = sort_key (\<lambda>(k, n). - int n) rows"

record court_stat =
  stat_court :: string
  stat_count :: nat

definition get_court_stats :: "case_row list \<Rightarrow> court_stat list" where
  "get_court_stats db =
     map (\<lambda>(court, n). \<lparr>stat_court = (if truthy_str court then or_empty court else ''Unknown''),
                         stat_count = n\<rparr>)
       (order_by_count_desc (group_count (map case_court db)))"

definition list_courts :: "case_row list \<Rightarrow> string list" where
  "list_courts db = map stat_court (get_court_stats db)"

section \<open>Notions of the specification\<close>

text \<open>
  A token matches the text at position \<open>i\<close> when the characters of the text from \<open>i\<close>
  on, as many as the token has, equal the token up to the case of letters. The first
  match is the least position at which some token matches, if there is one.
\<close>

definition token_matches_at :: "string \<Rightarrow> string \<Rightarrow> nat \<Rightarrow> bool" where
  "token_matches_at token text i =
     (i + length token \<le> length text \<and>
      map lower_char (take (length token) (drop i text)) = map lower_char token)"

definition any_token_matches_at :: "string list \<Rightarrow> string \<Rightarrow> nat \<Rightarrow> bool" where
  "any_token_matches_at tokens text i = (\<exists>token \<in> set tokens. token_matches_at token text i)"

definition first_match_spec :: "string list \<Rightarrow> string \<Rightarrow> nat option \<Rightarrow> bool" where
  "first_match_spec tokens text m =
     (case m of
        None \<Rightarrow> (\<forall>i. \<not> any_token_matches_at tokens text i)
      | Some i \<Rightarrow> any_token_matches_at tokens text i \<and>
                  (\<forall>j<i. \<not> any_token_matches_at tokens text j))"

text \<open>The start of the window: a third of the maximal length before the first match.\<close>

definition spec_window_start :: "nat option \<Rightarrow> int \<Rightarrow> int" where
  "spec_window_start m max_length =
     (case m of None \<Rightarrow> 0 | Some i \<Rightarrow> max 0 (int i - max_length div 3))"

text \<open>
  The rows that satisfy every condition of a list; with no condition, every row. The
  page window of a list of rows: \<open>per_page\<close> rows after the first
  \<open>(page - 1) * per_page\<close>.
\<close>

definition matching :: "(case_row \<Rightarrow> bool) list \<Rightarrow> case_row list \<Rightarrow> case_row list" where
  "matching conditions db = filter (\<lambda>c. list_all (\<lambda>p. p c) conditions) db"

definition page_window :: "int \<Rightarrow> int \<Rightarrow> 'a list \<Rightarrow> 'a list" where
  "page_window page per_page rows = take (nat per_page) (drop (nat ((page - 1) * per_page)) rows)"

text \<open>
  The snippet of a row before highlighting: the headnote when there is one and it is
  not empty; otherwise, for a text that is not empty, its first 300 characters followed
  by three dots; otherwise none.
\<close>

fun snippet_rule :: "string option \<Rightarrow> string option \<Rightarrow> string option" where
  "snippet_rule (Some (h # hs)) text = Some (h # hs)"
| "snippet_rule headnote (Some (t # ts)) = Some (take 300 (t # ts) @ ''...'')"
| "snippet_rule headnote text = None"

text \<open>
  The number of records of a CSV text: the line feeds outside double quotes, each
  ending a record. The lines of a text: the pieces between line feeds; an empty text
  has no line.
\<close>

fun csv_scan :: "bool \<Rightarrow> string \<Rightarrow> nat" where
  "csv_scan quoted [] = 0"
| "csv_scan quoted (c # cs) =
     (if c = dquote then csv_scan (\<not> quoted) cs
      else if c = CHR 0x0A \<and> \<not> quoted then Suc (csv_scan quoted cs)
      else csv_scan quoted cs)"

definition csv_record_count :: "string \<Rightarrow> nat" where
  "csv_record_count text = csv_scan False text"

fun split_lines :: "string \<Rightarrow> string \<Rightarrow> string list" where
  "split_lines cur [] = [cur]"
| "split_lines cur (c # cs) =
     (if c = CHR 0x0A then cur # split_lines [] cs else split_lines (cur @ [c]) cs)"

definition text_lines :: "string \<Rightarrow> string list" where
  "text_lines text = (if text = [] then [] else split_lines [] text)"

text \<open>
  Reading a JSON string back: the escapes of the encoder are undone, a string that is
  not well formed gives no result.
\<close>

definition hex_val :: "char \<Rightarrow> nat option" where
  "hex_val c = map_of (zip ''0123456789abcdef'' [0, 1, 2, 3, 4, 5, 6, 7, 8, 9, 10, 11, 12, 13, 14, 15]) c"

definition unescape_simple :: "char \<Rightarrow> char option" where
  "unescape_simple e =
     map_of [(dquote, dquote), (backslash, backslash), (CHR ''n'', CHR 0x0A),
             (CHR ''r'', CHR 0x0D), (CHR ''t'', CHR 0x09), (CHR ''b'', CHR 0x08),
             (CHR ''f'', CHR 0x0C)] e"

fun json_unescape :: "string \<Rightarrow> string option" where
  "json_unescape [] = Some []"
| "json_unescape [c] = (if c = backslash \<or> c = dquote then None else Some [c])"
| "json_unescape (c # e # r) =
     (if c = dquote then None
      else if c \<noteq> backslash then map_option ((#) c) (json_unescape (e # r))
      else if e = CHR ''u'' then
        (case r of
           a # b # h # l # r' \<Rightarrow>
             (case (hex_val a, hex_val b, hex_val h, hex_val l) of
                (Some 0, Some 0, Some hv, Some lv) \<Rightarrow>
                  map_option ((#) (char_of (16 * hv + lv))) (json_unescape r')
              | _ \<Rightarrow> None)
         | _ \<Rightarrow> None)
      else (case unescape_simple e of
              None \<Rightarrow> None
            | Some d \<Rightarrow> map_option ((#) d) (json_unescape r)))"

definition json_decode_string :: "string \<Rightarrow> string option" where
  "json_decode_string s =
     (case s of
        [] \<Rightarrow> None
      | q # body \<Rightarrow>
          if q = dquote \<and> body \<noteq> [] \<and> last body = dquote
          then json_unescape (butlast body) else None)"

section \<open>Records used as examples\<close>

text \<open>The row of the test fixtures, a row with a short text only, and an older row.\<close>

definition case_001 :: case_row where
  "case_001 =
     \<lparr>case_id = ''case_001'', case_title = ''Smith v. State'',
      case_citation = Some ''2024 SC 445'', case_court = Some ''Supreme Court'',
      case_date = Some ''2024-03-15'', case_year = Some 2024,
      case_judges = None, case_headnote = Some ''Brief summary of the case.'',
      case_text = Some ''Full judgment text goes here.''\<rparr>"

definition short_text_row :: case_row where
  "short_text_row =
     \<lparr>case_id = ''case_002'', case_title = ''Doe v. Roe'', case_citation = None,
      case_court = None, case_date = None, case_year = Some 2024, case_judges = None,
      case_headnote = None, case_text = Some ''Short text.''\<rparr>"

definition case_1999 :: case_row where
  "case_1999 =
     \<lparr>case_id = ''case_003'', case_title = ''State v. Jones'', case_citation = None,
      case_court = Some ''High Court'', case_date = Some ''1999-07-01'', case_year = Some 1999,
      case_judges = None, case_headnote = None, case_text = None\<rparr>"

text \<open>A row whose headnote has 600 characters, and a row without court.\<close>

definition long_headnote_row :: case_row where
  "long_headnote_row =
     \<lparr>case_id = ''case_004'', case_title = ''In re Long'', case_citation = None,
      case_court = None, case_date = None, case_year = None, case_judges = None,
      case_headnote = Some (replicate 600 CHR ''a''), case_text = None\<rparr>"

definition no_court_row :: case_row where
  "no_court_row =
     \<lparr>case_id = ''case_005'', case_title = ''Ex parte Nobody'', case_citation = None,
      case_court = None, case_date = None, case_year = None, case_judges = None,
      case_headnote = None, case_text = None\<rparr>"

section \<open>Slices and searches\<close>

lemma py_slice_window:
  assumes "0 \<le> s" "0 \<le> n"
  shows "py_slice xs s (s + n) = take (nat n) (drop (nat s) xs)"
  using assms by (auto simp: py_slice_def clamp_index_def Let_def min_def nat_add_distrib)

lemma py_slice_prefix: "0 \<le> n \<Longrightarrow> py_slice xs 0 n = take (nat n) xs"
  using py_slice_window[of 0 n xs] by simp

lemma ci_prefix_iff:
  "ci_prefix p s \<longleftrightarrow> length p \<le> length s \<and> map lower_char (take (length p) s) = map lower_char p"
  by (induction p s rule: ci_prefix.induct) auto

lemma ci_prefix_drop: "i \<le> length s \<Longrightarrow> ci_prefix p (drop i s) \<longleftrightarrow> token_matches_at p s i"
  by (auto simp: ci_prefix_iff token_matches_at_def)

lemma list_ex_match0: "list_ex (\<lambda>t. ci_prefix t s) tokens \<longleftrightarrow> any_token_matches_at tokens s 0"
  using ci_prefix_drop[of 0 s] by (auto simp: list_ex_iff any_token_matches_at_def)

lemma match_Cons_Suc:
  "any_token_matches_at tokens (c # cs) (Suc i) \<longleftrightarrow> any_token_matches_at tokens cs i"
  by (simp add: any_token_matches_at_def token_matches_at_def)

lemma re_search_Some:
  "re_search tokens s = Some i \<Longrightarrow>
     any_token_matches_at tokens s i \<and> (\<forall>j<i. \<not> any_token_matches_at tokens s j)"
proof (induction s arbitrary: i)
  case Nil
  then show ?case by (auto simp: list_ex_match0 split: if_splits)
next
  case (Cons c cs)
  show ?case
  proof (cases "list_ex (\<lambda>t. ci_prefix t (c # cs)) tokens")
    case True
    with Cons.prems show ?thesis by (auto simp: list_ex_match0)
  next
    case False
    with Cons.prems obtain k where k: "re_search tokens cs = Some k" "i = Suc k"
      by auto
    from Cons.IH[OF k(1)] have ih: "any_token_matches_at tokens cs k"
      "\<forall>j<k. \<not> any_token_matches_at tokens cs j" by auto
    have "\<not> any_token_matches_at tokens (c # cs) j" if "j < i" for j
    proof (cases j)
      case 0
      with False show ?thesis by (simp add: list_ex_match0)
    next
      case (Suc j')
      with that k ih show ?thesis by (simp add: match_Cons_Suc)
    qed
    with ih k show ?thesis by (simp add: match_Cons_Suc)
  qed
qed

lemma re_search_None:
  "re_search tokens s = None \<Longrightarrow> \<not> any_token_matches_at tokens s i"
proof (induction s arbitrary: i)
  case Nil
  then show ?case
    by (auto simp: list_ex_iff any_token_matches_at_def token_matches_at_def split: if_splits)
next
  case (Cons c cs)
  then show ?case
    by (cases i) (auto simp: list_ex_match0 match_Cons_Suc split: if_splits)
qed

lemma re_search_spec: "first_match_spec tokens text (re_search tokens text)"
  by (cases "re_search tokens text")
     (auto simp: first_match_spec_def dest: re_search_Some re_search_None)

lemma first_match_spec_unique:
  assumes "first_match_spec tokens text m" "first_match_spec tokens text m'"
  shows "m = m'"
proof (cases m; cases m')
  fix i j assume "m = Some i" "m' = Some j"
  with assms show ?thesis
    by (auto simp: first_match_spec_def intro: linorder_cases[of i j])
qed (use assms in \<open>auto simp: first_match_spec_def\<close>)

lemma snippet_window_spec:
  assumes "first_match_spec tokens text m"
  shows "snippet_window tokens text max_length =
           (spec_window_start m max_length, spec_window_start m max_length + max_length)"
proof -
  have "re_search tokens text = m"
    using first_match_spec_unique[OF re_search_spec assms] .
  then show ?thesis
    by (cases m) (simp_all add: snippet_window_def spec_window_start_def Let_def)
qed

lemma spec_window_start_nonneg: "0 \<le> spec_window_start m max_length"
  by (cases m) (simp_all add: spec_window_start_def)

lemma all_space_tokens:
  assumes "\<forall>c \<in> set query. is_space c"
  shows "query_tokens query = []"
proof -
  have "split_ws [] q = []" if "\<forall>c \<in> set q. is_space c" for q
    using that by (induction q) auto
  with assms show ?thesis by (simp add: query_tokens_def py_split_def)
qed

lemma sublist_snoc_append:
  assumes "sublist (w @ [c]) (xs @ ys)" and "c \<notin> set ys"
  shows "sublist (w @ [c]) xs"
proof -
  from assms(1) obtain ps ss where eq: "xs @ ys = (ps @ w @ [c]) @ ss"
    by (auto simp: sublist_def)
  then obtain us where
    "(xs = (ps @ w @ [c]) @ us \<and> us @ ys = ss) \<or> (xs @ us = ps @ w @ [c] \<and> ys = us @ ss)"
    unfolding append_eq_append_conv2[of xs ys "ps @ w @ [c]" ss] by blast
  then show ?thesis
  proof
    assume "xs = (ps @ w @ [c]) @ us \<and> us @ ys = ss"
    then show ?thesis by (auto simp: sublist_def)
  next
    assume a: "xs @ us = ps @ w @ [c] \<and> ys = us @ ss"
    show ?thesis
    proof (cases "us = []")
      case True
      with a have "xs = ps @ (w @ [c]) @ []" by simp
      then show ?thesis unfolding sublist_def by blast
    next
      case False
      with a have "last us = c"
        by (metis last_appendR last_snoc append_assoc)
      with False have "c \<in> set us" using last_in_set by blast
      with a assms(2) show ?thesis by simp
    qed
  qed
qed

lemma sublist_take: "sublist w (take n xs) \<Longrightarrow> sublist w xs"
  by (metis append_take_drop_id sublist_append)

lemma sublist_drop: "sublist w (drop n xs) \<Longrightarrow> sublist w xs"
  by (metis append_take_drop_id sublist_append)

lemma sublist_py_slice: "sublist w (py_slice xs lo hi) \<Longrightarrow> sublist w xs"
  unfolding py_slice_def Let_def by (blast dest: sublist_take sublist_drop)

section \<open>Selection, snippets and page counts\<close>

lemma select_where_matching: "select_where conditions db = matching conditions db"
  by (cases conditions) (simp_all add: select_where_def matching_def)

lemma export_conditions_eq: "export_conditions = search_conditions"
  by (intro ext) (simp add: export_conditions_def search_conditions_def)

lemma search_cases_total:
  "per_page \<noteq> 0 \<Longrightarrow> \<exists>r. search_cases db query court year date_from date_to page per_page = Inr r"
  by (simp add: search_cases_def Let_def)

lemma make_snippet_rule: "make_snippet c = snippet_rule (case_headnote c) (case_text c)"
proof (cases "case_headnote c")
  case None
  then show ?thesis
    by (cases "case_text c"; cases "the (case_text c)")
       (auto simp: make_snippet_def truthy_str_def py_slice_prefix)
next
  case (Some h)
  then show ?thesis
    by (cases h; cases "case_text c"; cases "the (case_text c)")
       (auto simp: make_snippet_def truthy_str_def py_slice_prefix)
qed

lemma year_condition:
  assumes "y \<noteq> 0"
      and "list_all (\<lambda>p. p c) (search_conditions query court (Some y) date_from date_to)"
  shows "case_year c = Some y"
  using assms by (auto simp: search_conditions_def sql_eq_def split: option.splits)

lemma ceil_div_aux:
  fixes a b :: int
  assumes "0 < b"
  shows "(a + b - 1) div b = (if a mod b = 0 then a div b else a div b + 1)"
proof -
  define q r where "q = a div b" and "r = a mod b"
  have a: "a = r + q * b" and r: "0 \<le> r" "r < b"
    using assms by (simp_all add: q_def r_def)
  have "(a + b - 1) div b = q + (r + b - 1) div b"
  proof -
    have "a + b - 1 = (r + b - 1) + q * b" using a by simp
    then show ?thesis using assms by (simp only: div_mult_self1)
  qed
  moreover have "(r + b - 1) div b = (if r = 0 then 0 else 1)"
  proof (cases "r = 0")
    case True
    then show ?thesis using assms by (simp add: div_pos_pos_trivial)
  next
    case False
    with r have "(r + b - 1) = (r - 1) + 1 * b" "0 \<le> r - 1" "r - 1 < b" by simp_all
    then have "(r + b - 1) div b = 1 + (r - 1) div b"
      using assms by (metis div_mult_self1 less_irrefl)
    with False \<open>0 \<le> r - 1\<close> \<open>r - 1 < b\<close> show ?thesis by (simp add: div_pos_pos_trivial)
  qed
  ultimately show ?thesis by (simp add: q_def r_def)
qed

lemma ceil_div:
  fixes a b :: int
  assumes "0 < b"
  shows "(a + b - 1) div b = \<lceil>real_of_int a / real_of_int b\<rceil>"
proof -
  have "\<lceil>real_of_int a / real_of_int b\<rceil> = - ((- a) div b)"
    by (simp add: ceiling_divide_eq_div)
  also have "\<dots> = (if a mod b = 0 then a div b else a div b + 1)"
    using assms by (simp add: zdiv_zminus1_eq_if)
  finally show ?thesis using ceil_div_aux[OF assms, of a] by simp
qed

section \<open>CSV records, JSON lines and groups\<close>

lemma csv_scan_plain:
  "dquote \<notin> set s \<Longrightarrow> CHR 0x0A \<notin> set s \<Longrightarrow> csv_scan q (s @ r) = csv_scan q r"
  by (induction s) auto

lemma csv_scan_quoted_body:
  "csv_scan True (concat (map (\<lambda>c. if c = dquote then [dquote, dquote] else [c]) f) @ r)
     = csv_scan True r"
  by (induction f) auto

lemma csv_scan_field: "csv_scan False (csv_field f @ r) = csv_scan False r"
proof (cases "list_ex csv_special f")
  case True
  then show ?thesis
    using csv_scan_quoted_body[of f "dquote # r"] by (simp add: csv_field_def)
next
  case False
  then have "dquote \<notin> set f" "CHR 0x0A \<notin> set f"
    by (auto simp: list_ex_iff csv_special_def)
  with False show ?thesis by (simp add: csv_field_def csv_scan_plain)
qed

lemma csv_scan_join:
  "csv_scan False (join '','' (map csv_field fs) @ r) = csv_scan False r"
proof (induction fs rule: induct_list012)
  case (3 x y zs)
  have "csv_scan False (csv_field x @ ('','' @ join '','' (map csv_field (y # zs)) @ r))
          = csv_scan False ('','' @ join '','' (map csv_field (y # zs)) @ r)"
    by (rule csv_scan_field)
  with 3 show ?case by (simp add: dquote_def)
qed (simp_all add: csv_scan_field)

lemma csv_scan_writerow: "csv_scan False (writerow row @ r) = Suc (csv_scan False r)"
proof (cases "row = [[]]")
  case True
  then show ?thesis by (simp add: writerow_def dquote_def)
next
  case False
  then show ?thesis
    using csv_scan_join[of row "[CHR 0x0D, CHR 0x0A] @ r"] by (simp add: writerow_def dquote_def)
qed

lemma csv_scan_rows: "csv_scan False (concat (map writerow rows)) = length rows"
  by (induction rows) (simp_all add: csv_scan_writerow)

lemma split_lines_plain:
  "CHR 0x0A \<notin> set l \<Longrightarrow> split_lines cur (l @ r) = split_lines (cur @ l) r"
  by (induction l arbitrary: cur) auto

lemma split_lines_join:
  assumes "\<forall>l \<in> set ls. CHR 0x0A \<notin> set l" and "ls \<noteq> []"
  shows "split_lines cur (join [CHR 0x0A] ls) = (cur @ hd ls) # tl ls"
  using assms
proof (induction ls arbitrary: cur rule: induct_list012)
  case (2 x)
  then show ?case using split_lines_plain[of x cur "[]"] by simp
next
  case (3 x y zs)
  then show ?case
    using split_lines_plain[of x cur "CHR 0x0A # join [CHR 0x0A] (y # zs)"] by simp
qed simp

lemma text_lines_join:
  assumes "\<forall>l \<in> set ls. CHR 0x0A \<notin> set l \<and> l \<noteq> []"
  shows "text_lines (join [CHR 0x0A] ls) = ls"
proof (cases ls)
  case Nil
  then show ?thesis by (simp add: text_lines_def)
next
  case (Cons l ls')
  with assms have "join [CHR 0x0A] ls \<noteq> []" by (cases ls') auto
  with assms Cons show ?thesis
    using split_lines_join[of ls "[]"] by (simp add: text_lines_def)
qed

lemma below_16:
  "(k::nat) < 16 \<Longrightarrow> k = 0 \<or> k = 1 \<or> k = 2 \<or> k = 3 \<or> k = 4 \<or> k = 5 \<or> k = 6 \<or> k = 7 \<or>
     k = 8 \<or> k = 9 \<or> k = 10 \<or> k = 11 \<or> k = 12 \<or> k = 13 \<or> k = 14 \<or> k = 15"
  by arith

lemma hex_val_digit: "k < 16 \<Longrightarrow> hex_val (digit_char k) = Some k"
  by (drule below_16) (elim disjE; simp add: hex_val_def digit_char_def)

lemma digit_char_plain:
  "k < 16 \<Longrightarrow> digit_char k \<notin> {CHR 0x0A, dquote, backslash}"
  by (drule below_16) (elim disjE; simp add: digit_char_def dquote_def backslash_def)

lemma json_unescape_escape:
  "json_unescape (json_escape_char c @ r) = map_option ((#) c) (json_unescape r)"
proof -
  consider "c = dquote" | "c = backslash" | "c = CHR 0x0A" | "c = CHR 0x0D" | "c = CHR 0x09"
    | "c = CHR 0x08" | "c = CHR 0x0C"
    | "c \<notin> {dquote, backslash, CHR 0x0A, CHR 0x0D, CHR 0x09, CHR 0x08, CHR 0x0C}" "(of_char c :: nat) < 32"
    | "c \<notin> {dquote, backslash, CHR 0x0A, CHR 0x0D, CHR 0x09, CHR 0x08, CHR 0x0C}" "\<not> (of_char c :: nat) < 32"
    by blast
  then show ?thesis
  proof cases
    case 8
    let ?n = "of_char c :: nat"
    have hv: "hex_val (digit_char (?n div 16)) = Some (?n div 16)"
      "hex_val (digit_char (?n mod 16)) = Some (?n mod 16)"
      using 8(2) by (simp_all add: hex_val_digit)
    have z: "hex_val CHR ''0'' = Some 0" by (simp add: hex_val_def)
    have "char_of (16 * (?n div 16) + ?n mod 16) = c" by simp
    with 8 hv z show ?thesis
      by (simp add: json_escape_char_def backslash_def dquote_def)
  next
    case 9
    then show ?thesis
      by (cases r) (auto simp: json_escape_char_def)
  qed (simp_all add: json_escape_char_def unescape_simple_def backslash_def dquote_def)
qed

lemma json_unescape_roundtrip: "json_unescape (concat (map json_escape_char s)) = Some s"
  by (induction s) (simp_all add: json_unescape_escape)

lemma json_decode_string_roundtrip: "json_decode_string (json_string s) = Some s"
  by (simp add: json_decode_string_def json_string_def json_unescape_roundtrip)

lemma str_nat_plain: "CHR 0x0A \<notin> set (str_nat n)"
proof (induction n rule: str_nat.induct)
  case (1 n)
  have d: "digit_char k \<noteq> CHR 0x0A" if "k < 10" for k
    using digit_char_plain[of k] that by simp
  show ?case
  proof (cases "n < 10")
    case True
    then show ?thesis using d[of n] by (subst str_nat.simps) simp
  next
    case False
    with 1 d[of "n mod 10"] show ?thesis by (subst str_nat.simps) simp
  qed
qed

lemma str_nat_nonempty: "str_nat n \<noteq> []"
  by (subst str_nat.simps) simp

lemma str_int_plain: "CHR 0x0A \<notin> set (str_int i)"
  by (simp add: str_int_def str_nat_plain)

lemma json_escape_char_plain: "CHR 0x0A \<notin> set (json_escape_char c)"
proof (cases "(of_char c :: nat) < 32")
  case True
  then have "digit_char (of_char c div 16) \<noteq> CHR 0x0A" "digit_char (of_char c mod 16) \<noteq> CHR 0x0A"
    using digit_char_plain[of "of_char c div 16"] digit_char_plain[of "of_char c mod 16"]
    by simp_all
  then show ?thesis by (simp add: json_escape_char_def dquote_def backslash_def)
next
  case False
  then show ?thesis by (auto simp: json_escape_char_def dquote_def backslash_def)
qed

lemma json_string_plain: "CHR 0x0A \<notin> set (json_string s)"
  by (simp add: json_string_def json_escape_char_plain dquote_def)

lemma json_dumps_value_plain: "CHR 0x0A \<notin> set (json_dumps_value v)"
  by (cases v) (simp_all add: str_int_plain json_string_plain)

lemma join_plain:
  "c \<notin> set sep \<Longrightarrow> \<forall>x \<in> set xs. c \<notin> set x \<Longrightarrow> c \<notin> set (join sep xs)"
  by (induction xs rule: induct_list012) auto

lemma json_dumps_plain: "CHR 0x0A \<notin> set (json_dumps obj)"
proof -
  have "CHR 0x0A \<notin> set (join '', '' (map (\<lambda>(k, v). json_string k @ '': '' @ json_dumps_value v) obj))"
    by (rule join_plain) (auto simp: json_string_plain json_dumps_value_plain)
  then show ?thesis by (simp add: json_dumps_def)
qed

lemma json_dumps_nonempty: "json_dumps obj \<noteq> []"
  by (simp add: json_dumps_def)

lemma length_fetch_export_rows:
  assumes "0 \<le> limit"
  shows "length (fetch_export_rows db query court year date_from date_to limit) =
           min (length (matching (export_conditions query court year date_from date_to) db))
               (nat (min limit 10000))"
  using assms
  by (simp add: fetch_export_rows_def sql_limit_def MAX_EXPORT_ROWS_def select_where_matching)

lemma csv_header_line:
  "writerow csv_header = ''id,title,citation,court,date,year,judges,headnote'' @ [CHR 0x0D, CHR 0x0A]"
  by (simp add: writerow_def csv_header_def csv_field_def csv_special_def dquote_def)

lemma csv_row_headnote:
  "length (csv_row c) = 8 \<and> csv_row c ! 7 = take 500 (or_empty (case_headnote c))"
  by (simp add: csv_row_def py_slice_prefix)

lemma json_dumps_headnote:
  "\<exists>pre. json_dumps (case_obj c) =
     pre @ json_string ''headnote'' @ '': '' @ json_dumps_value (json_opt_str (case_headnote c)) @ ''}''"
  by (simp add: json_dumps_def case_obj_def)

lemma group_count_iff:
  "(k, n) \<in> set (group_count ks) \<longleftrightarrow> k \<in> set ks \<and> n = length (filter (\<lambda>x. x = k) ks)"
proof (induction ks arbitrary: k n rule: group_count.induct)
  case 1
  then show ?case by simp
next
  case (2 a ks)
  have f: "filter (\<lambda>x. x = k) (filter (\<lambda>x. x \<noteq> a) ks) = filter (\<lambda>x. x = k) ks" if "k \<noteq> a"
    using that by (induction ks) auto
  show ?case
  proof (cases "k = a")
    case True
    then show ?thesis using 2[of a n] by auto
  next
    case False
    then show ?thesis using 2[of k n] f by auto
  qed
qed

lemma set_order_by_count_desc: "set (order_by_count_desc rows) = set rows"
  by (simp add: order_by_count_desc_def)

lemma court_stats_entry:
  "s \<in> set (get_court_stats db) \<longleftrightarrow>
     (\<exists>court \<in> set (map case_court db).
        s = \<lparr>stat_court = (if truthy_str court then or_empty court else ''Unknown''),
             stat_count = length (filter (\<lambda>c. case_court c = court) db)\<rparr>)"
proof -
  have n: "length (filter (\<lambda>x. x = court) (map case_court db)) =
        length (filter (\<lambda>c. case_court c = court) db)" for court
    by (simp add: filter_map comp_def)
  have "set (get_court_stats db) =
          (\<lambda>(court, n). \<lparr>stat_court = (if truthy_str court then or_empty court else ''Unknown''),
                             stat_count = n\<rparr>) ` set (group_count (map case_court db))"
    by (simp add: get_court_stats_def set_order_by_count_desc)
  then have "s \<in> set (get_court_stats db) \<longleftrightarrow>
      (\<exists>court n. (court, n) \<in> set (group_count (map case_court db)) \<and>
         s = \<lparr>stat_court = (if truthy_str court then or_empty court else ''Unknown''),
              stat_count = n\<rparr>)"
    by (auto simp del: if_split_asm split del: if_split)
  also have "\<dots> \<longleftrightarrow> (\<exists>court \<in> set (map case_court db).
        s = \<lparr>stat_court = (if truthy_str court then or_empty court else ''Unknown''),
             stat_count = length (filter (\<lambda>c. case_court c = court) db)\<rparr>)"
    unfolding group_count_iff n by blast
  finally show ?thesis .
qed

section \<open>The search endpoint\<close>

text \<open>
  C1. A valid search request should complete with a response. The endpoint passes the
  keyword \<open>highlight\<close> to \<open>search_cases\<close>, which does not declare it, so every request
  ends in a \<open>TypeError\<close>, whatever the query, the filters and the page are.
\<close>

theorem search_endpoint_raises:
  "search db q court year date_from date_to page per_page highlight = Inl (TypeError ''highlight'')"
  by (simp add: search_def search_cases_params_def Let_def)

text \<open>
  C2. With highlighting enabled the emitted snippet should be the highlighter's result.
  \<open>search_cases\<close> emits the headnote of the fixture row as it is for the query
  \<open>case\<close>; the highlighter would have wrapped the token.
\<close>

theorem search_snippet_not_highlighted:
  "search_cases [case_001] ''case'' None None None None 1 20 =
     Inr \<lparr>sr_total = 1, sr_page = 1, sr_per_page = 20, sr_total_pages = 1,
          sr_results = [\<lparr>resp_id = ''case_001'', resp_title = ''Smith v. State'',
             resp_citation = Some ''2024 SC 445'', resp_court = Some ''Supreme Court'',
             resp_date = Some ''2024-03-15'', resp_snippet = Some ''Brief summary of the case.'',
             resp_relevance = 1\<rparr>]\<rparr>
   \<and> highlight_snippet (Some ''Brief summary of the case.'') ''case'' 300 ''mark''
       = Some ''Brief summary of the <mark>case</mark>.''"
proof -
  have i: "ilike (Some ''Brief summary of the case.'') (like_term ''case'')"
    by (simp add: ilike_def like_term_def lower_char_def)
  have c: "search_conditions ''case'' None None None None =
     [\<lambda>c. ilike (Some (case_title c)) (like_term ''case'') \<or>
              ilike (case_headnote c) (like_term ''case'') \<or>
              ilike (case_text c) (like_term ''case'') \<or>
              ilike (case_citation c) (like_term ''case'')]"
    by (simp add: search_conditions_def)
  have s: "select_where (search_conditions ''case'' None None None None) [case_001] = [case_001]"
    unfolding c by (simp add: select_where_def case_001_def i)
  have f: "format_result case_001 = \<lparr>resp_id = ''case_001'', resp_title = ''Smith v. State'',
             resp_citation = Some ''2024 SC 445'', resp_court = Some ''Supreme Court'',
             resp_date = Some ''2024-03-15'', resp_snippet = Some ''Brief summary of the case.'',
             resp_relevance = 1\<rparr>"
    by (simp add: format_result_def make_snippet_def truthy_str_def case_001_def)
  have 1: "search_cases [case_001] ''case'' None None None None 1 20 =
     Inr \<lparr>sr_total = 1, sr_page = 1, sr_per_page = 20, sr_total_pages = 1,
          sr_results = [format_result case_001]\<rparr>"
    by (simp add: search_cases_def Let_def s sql_limit_def sql_offset_def)
  have 2: "highlight_snippet (Some ''Brief summary of the case.'') ''case'' 300 ''mark''
       = Some ''Brief summary of the <mark>case</mark>.''"
    by code_simp
  from 1 2 f show ?thesis by simp
qed

text \<open>
  C3, as stated: a row without headnote whose text has at most 300 characters gets
  the text itself as snippet. The code puts three dots behind it all the same.
\<close>

theorem search_snippet_counterexample:
  "search_cases [short_text_row] [] None None None None 1 20 =
     Inr \<lparr>sr_total = 1, sr_page = 1, sr_per_page = 20, sr_total_pages = 1,
          sr_results = [\<lparr>resp_id = ''case_002'', resp_title = ''Doe v. Roe'',
             resp_citation = None, resp_court = None, resp_date = None,
             resp_snippet = Some ''Short text....'', resp_relevance = 1\<rparr>]\<rparr>
   \<and> case_headnote short_text_row = None
   \<and> case_text short_text_row = Some ''Short text.''
   \<and> length ''Short text.'' \<le> 300"
  by (simp add: search_cases_def search_conditions_def select_where_def Let_def sql_limit_def
        sql_offset_def format_result_def make_snippet_def truthy_str_def short_text_row_def
        py_slice_def clamp_index_def)

text \<open>
  C3, amended. For a page of at least 1 and at least one row per page the search
  returns, and its results are the rows of the page window of the matching rows, in
  order; the snippet of each is the headnote when that is present and not empty,
  otherwise the first 300 characters of a text that is not empty followed by three
  dots (for a short text too), otherwise absent.
\<close>

theorem search_snippet_rule:
  assumes "1 \<le> page" and "1 \<le> per_page"
  shows "\<exists>r. search_cases db query court year date_from date_to page per_page = Inr r \<and>
           map resp_id (sr_results r) =
             map case_id (page_window page per_page
               (matching (search_conditions query court year date_from date_to) db)) \<and>
           map resp_snippet (sr_results r) =
             map (\<lambda>c. snippet_rule (case_headnote c) (case_text c))
               (page_window page per_page
                 (matching (search_conditions query court year date_from date_to) db))"
  using assms
  by (simp add: search_cases_def Let_def select_where_matching sql_limit_def sql_offset_def
        page_window_def format_result_def make_snippet_rule comp_def)

theorem search_snippet_rule_witness:
  "(1::int) \<le> 1 \<and> (1::int) \<le> 20 \<and>
   (\<exists>r. search_cases [case_001, short_text_row] [] None None None None 1 20 = Inr r \<and>
        map resp_id (sr_results r) = [''case_001'', ''case_002''] \<and>
        map resp_snippet (sr_results r) =
          [Some ''Brief summary of the case.'', Some ''Short text....''])"
proof -
  have h1: "(1::int) \<le> 1" and h2: "(1::int) \<le> 20" by simp_all
  have w: "page_window 1 20 (matching (search_conditions [] None None None None)
             [case_001, short_text_row]) = [case_001, short_text_row]"
    by (simp add: page_window_def matching_def search_conditions_def)
  from search_snippet_rule[OF h1 h2, of "[case_001, short_text_row]" "[]" None None None None]
  show ?thesis
    unfolding w by (simp add: case_001_def short_text_row_def)
qed

section \<open>The year filter\<close>

text \<open>
  C4, as stated: a supplied year, also 0, restricts the rows to that year. The year 0
  is not taken as a filter: a row of 2024 is selected for it, by search and by export.
\<close>

theorem year_filter_counterexample:
  "select_where (search_conditions [] None (Some 0) None None) [case_001] = [case_001]
   \<and> select_where (export_conditions [] None (Some 0) None None) [case_001] = [case_001]
   \<and> case_year case_001 = Some 2024"
  by (simp add: select_where_def search_conditions_def export_conditions_def case_001_def)

text \<open>
  C4, amended. For a supplied year other than 0, every row that search or export
  selects has exactly that year. The year 0 builds the conditions of a request without
  year.
\<close>

theorem year_filter_exact:
  "(y \<noteq> 0 \<longrightarrow>
      (\<forall>c \<in> set (select_where (search_conditions query court (Some y) date_from date_to) db).
          case_year c = Some y) \<and>
      (\<forall>c \<in> set (select_where (export_conditions query court (Some y) date_from date_to) db).
          case_year c = Some y))
   \<and> search_conditions query court (Some 0) date_from date_to =
       search_conditions query court None date_from date_to
   \<and> export_conditions query court (Some 0) date_from date_to =
       export_conditions query court None date_from date_to"
proof -
  have "case_year c = Some y"
    if "y \<noteq> 0" "c \<in> set (select_where (search_conditions query court (Some y) date_from date_to) db)"
    for c
    using that year_condition[of y c query court date_from date_to]
    by (simp add: select_where_matching matching_def)
  moreover have "search_conditions query court (Some 0) date_from date_to =
       search_conditions query court None date_from date_to"
    by (simp add: search_conditions_def)
  ultimately show ?thesis
    unfolding export_conditions_eq by blast
qed

theorem year_filter_exact_witness:
  "(2024::int) \<noteq> 0
   \<and> select_where (search_conditions [] None (Some 2024) None None) [case_001, case_1999] = [case_001]
   \<and> select_where (export_conditions [] None (Some 2024) None None) [case_001, case_1999] = [case_001]
   \<and> list_all (\<lambda>c. case_year c = Some 2024)
        (select_where (search_conditions [] None (Some 2024) None None) [case_001, case_1999])
   \<and> list_all (\<lambda>c. case_year c = Some 2024)
        (select_where (export_conditions [] None (Some 2024) None None) [case_001, case_1999])"
proof -
  have s: "select_where (search_conditions [] None (Some 2024) None None) [case_001, case_1999] = [case_001]"
    by (simp add: select_where_def search_conditions_def sql_eq_def case_001_def case_1999_def)
  have e: "select_where (export_conditions [] None (Some 2024) None None) [case_001, case_1999] = [case_001]"
    by (simp add: select_where_def export_conditions_def sql_eq_def case_001_def case_1999_def)
  from year_filter_exact[of 2024 "[]" None None None "[case_001, case_1999]"]
  have "list_all (\<lambda>c. case_year c = Some 2024)
        (select_where (search_conditions [] None (Some 2024) None None) [case_001, case_1999])
   \<and> list_all (\<lambda>c. case_year c = Some 2024)
        (select_where (export_conditions [] None (Some 2024) None None) [case_001, case_1999])"
    by (simp add: list_all_iff)
  with s e show ?thesis by simp
qed

section \<open>The highlighter\<close>

text \<open>
  C5. For a non-empty text and a query with at least one token: when some token
  matches the text, the window starts a third of the maximal length before the
  leftmost match (at 0 if that is negative) and ends \<open>max_length\<close> after its start;
  when no token matches, the window is \<open>[0, max_length)\<close>. The text is sliced to the
  window; for a maximal length that is not negative the slice is the \<open>max_length\<close>
  characters from the start on. Three dots are put in front exactly when the window
  starts after position 0 and behind exactly when the window ends before the end of
  the text; the tokens are wrapped in that snippet.
\<close>

theorem highlight_window_placement:
  assumes "text \<noteq> []" and "query_tokens query \<noteq> []"
      and "first_match_spec (query_tokens query) text m"
  shows "snippet_window (query_tokens query) text max_length =
           (spec_window_start m max_length, spec_window_start m max_length + max_length)
       \<and> highlight_snippet (Some text) query max_length tag =
           Some (wrap_tokens tag (query_tokens query)
             ((if 0 < spec_window_start m max_length then ''...'' else []) @
              py_slice text (spec_window_start m max_length)
                (spec_window_start m max_length + max_length) @
              (if spec_window_start m max_length + max_length < int (length text)
               then ''...'' else [])))
       \<and> (0 \<le> max_length \<longrightarrow>
            py_slice text (spec_window_start m max_length)
              (spec_window_start m max_length + max_length) =
            take (nat max_length) (drop (nat (spec_window_start m max_length)) text))"
proof -
  let ?s = "spec_window_start m max_length"
  have w: "snippet_window (query_tokens query) text max_length = (?s, ?s + max_length)"
    using snippet_window_spec[OF assms(3)] .
  have q: "query \<noteq> []"
    using assms(2) by (auto simp: query_tokens_def py_split_def)
  have sl: "py_slice text ?s (?s + max_length) = take (nat max_length) (drop (nat ?s) text)"
    if "0 \<le> max_length"
    using py_slice_window[OF spec_window_start_nonneg that] .
  have "windowed_snippet (query_tokens query) text max_length =
          (if 0 < ?s then ''...'' else []) @ py_slice text ?s (?s + max_length) @
          (if ?s + max_length < int (length text) then ''...'' else [])"
    by (simp add: windowed_snippet_def w add_ellipsis_def Let_def)
  with w q sl assms(1,2) show ?thesis
    by (simp add: highlight_snippet_def Let_def)
qed

theorem highlight_window_placement_witness:
  "''aaaaaaaaaa Contract bbbbbbbbbb'' \<noteq> [] \<and> query_tokens ''x  contract'' \<noteq> [] \<and> (0::int) \<le> 12
   \<and> first_match_spec (query_tokens ''x  contract'') ''aaaaaaaaaa Contract bbbbbbbbbb'' (Some 11)
   \<and> snippet_window (query_tokens ''x  contract'') ''aaaaaaaaaa Contract bbbbbbbbbb'' 12 = (7, 19)
   \<and> py_slice ''aaaaaaaaaa Contract bbbbbbbbbb'' 7 19 = ''aaa Contract''
   \<and> highlight_snippet (Some ''aaaaaaaaaa Contract bbbbbbbbbb'') ''x  contract'' 12 ''mark''
       = Some ''...aaa <mark>Contract</mark>...''"
proof -
  let ?t = "''aaaaaaaaaa Contract bbbbbbbbbb''" and ?q = "''x  contract''"
  have h1: "?t \<noteq> []" by simp
  have tk: "query_tokens ?q = [''x'', ''contract'']" by code_simp
  have h2: "query_tokens ?q \<noteq> []" by (simp add: tk)
  have h3: "(0::int) \<le> 12" by simp
  have rs: "re_search (query_tokens ?q) ?t = Some 11" by code_simp
  have h4: "first_match_spec (query_tokens ?q) ?t (Some 11)"
    using re_search_spec[of "query_tokens ?q" ?t] by (simp only: rs)
  note w = highlight_window_placement[OF h1 h2 h4, of 12 "''mark''"]
  have s: "spec_window_start (Some 11) 12 = 7" by (simp add: spec_window_start_def)
  have e: "wrap_tokens ''mark'' [''x'', ''contract''] (''...'' @ ''aaa Contract'' @ ''...'')
             = ''...aaa <mark>Contract</mark>...''" by code_simp
  from w have 1: "snippet_window (query_tokens ?q) ?t 12 = (7, 19)"
    by (simp add: s)
  from w h3 have 2: "py_slice ?t 7 19 = ''aaa Contract''"
    by (simp add: s)
  from w have "highlight_snippet (Some ?t) ?q 12 ''mark'' =
      Some (wrap_tokens ''mark'' [''x'', ''contract''] (''...'' @ py_slice ?t 7 19 @ ''...''))"
    by (simp add: s tk)
  then have 3: "highlight_snippet (Some ?t) ?q 12 ''mark'' = Some ''...aaa <mark>Contract</mark>...''"
    unfolding 2 e .
  from 1 2 3 h1 h2 h3 h4 show ?thesis by simp
qed

text \<open>
  C6, as stated: with an empty query the result never contains a tag wrapper. That
  fails for a text that holds the wrapper already.
\<close>

theorem highlight_no_query_counterexample:
  "highlight_snippet (Some ''<mark>x</mark>'') [] 300 ''mark'' = Some ''<mark>x</mark>''
   \<and> sublist ''<mark>'' ''<mark>x</mark>''"
  by (simp add: highlight_snippet_def)

text \<open>
  C6, amended. An absent text gives an absent result for every query. For a non-empty
  text and a query that is empty or all whitespace, the result is the text when it
  has at most \<open>max_length\<close> characters, and otherwise the slice of the text up to
  \<open>max_length\<close> (its first \<open>max_length\<close> characters when that is not negative)
  with three dots behind. An opening or closing tag occurs in the result only if it
  occurs in the text, so the highlighter adds none.
\<close>

theorem highlight_no_query:
  "highlight_snippet None query max_length tag = None \<and>
   (text \<noteq> [] \<and> (\<forall>c \<in> set query'. is_space c) \<longrightarrow>
      highlight_snippet (Some text) query' max_length tag =
        Some (if max_length < int (length text) then py_slice text 0 max_length @ ''...'' else text)
      \<and> (0 \<le> max_length \<longrightarrow> py_slice text 0 max_length = take (nat max_length) text)
      \<and> (sublist (''<'' @ tag @ ''>'')
            (if max_length < int (length text) then py_slice text 0 max_length @ ''...'' else text)
          \<longrightarrow> sublist (''<'' @ tag @ ''>'') text)
      \<and> (sublist (''</'' @ tag @ ''>'')
            (if max_length < int (length text) then py_slice text 0 max_length @ ''...'' else text)
          \<longrightarrow> sublist (''</'' @ tag @ ''>'') text))"
proof -
  have none: "highlight_snippet None query max_length tag = None"
    by (simp add: highlight_snippet_def)
  have some: "highlight_snippet (Some text) query' max_length tag =
        Some (if max_length < int (length text) then py_slice text 0 max_length @ ''...'' else text)"
    if "text \<noteq> []" "\<forall>c \<in> set query'. is_space c"
    using that all_space_tokens[OF that(2)]
    by (simp add: highlight_snippet_def truncate_text_def Let_def)
  have wo: "sublist (''<'' @ tag @ ''>'') text"
    if "sublist (''<'' @ tag @ ''>'')
          (if max_length < int (length text) then py_slice text 0 max_length @ ''...'' else text)"
    using that sublist_py_slice[of _ "text" 0 max_length]
      sublist_snoc_append[of "''<'' @ tag" "CHR ''>''" "py_slice text 0 max_length" "''...''"]
    by (auto split: if_splits)
  have wc: "sublist (''</'' @ tag @ ''>'') text"
    if "sublist (''</'' @ tag @ ''>'')
          (if max_length < int (length text) then py_slice text 0 max_length @ ''...'' else text)"
    using that sublist_py_slice[of _ "text" 0 max_length]
      sublist_snoc_append[of "''</'' @ tag" "CHR ''>''" "py_slice text 0 max_length" "''...''"]
    by (auto split: if_splits)
  from none some wo wc py_slice_prefix[of max_length "text"] show ?thesis by blast
qed

theorem highlight_no_query_witness:
  "highlight_snippet None ''test'' 300 ''mark'' = None \<and>
   ''Some text content.'' \<noteq> [] \<and> list_all is_space ''  '' \<and> (0::int) \<le> 10 \<and>
   py_slice ''Some text content.'' 0 10 = ''Some text '' \<and>
   highlight_snippet (Some ''Some text content.'') ''  '' 10 ''mark'' = Some ''Some text ...''"
proof -
  have h: "''Some text content.'' \<noteq> [] \<and> list_all is_space ''  '' \<and> (0::int) \<le> 10"
    by (simp add: is_space_def)
  from highlight_no_query[of "''test''" 300 "''mark''" "''Some text content.''" "''  ''"]
  have n: "highlight_snippet None ''test'' 300 ''mark'' = None" by blast
  note w = highlight_no_query[of "''x''" 10 "''mark''" "''Some text content.''" "''  ''"]
  from w h have p: "py_slice ''Some text content.'' 0 10 = take (nat 10) ''Some text content.''"
    by (simp only: list_all_iff) blast
  from w h
  have "highlight_snippet (Some ''Some text content.'') ''  '' 10 ''mark'' =
        Some (if 10 < int (length ''Some text content.'')
              then py_slice ''Some text content.'' 0 10 @ ''...'' else ''Some text content.'')"
    by (simp only: list_all_iff) blast
  then have "highlight_snippet (Some ''Some text content.'') ''  '' 10 ''mark'' = Some ''Some text ...''"
    unfolding p by simp
  with n h p show ?thesis by simp
qed

section \<open>Pagination\<close>

text \<open>
  C7. For a page of at least 1 and at least one row per page the search returns; its
  total is the number of all rows that satisfy the conditions, whatever the page and
  the page size are, and its number of pages is the total divided by the page size,
  rounded up, which is 0 for a total of 0.
\<close>

theorem search_total_pages:
  assumes "1 \<le> page" and "1 \<le> per_page"
  shows "\<exists>r. search_cases db query court year date_from date_to page per_page = Inr r \<and>
           sr_total r = int (length (matching (search_conditions query court year date_from date_to) db)) \<and>
           sr_total_pages r = \<lceil>real_of_int (sr_total r) / real_of_int per_page\<rceil> \<and>
           (sr_total r = 0 \<longrightarrow> sr_total_pages r = 0)"
proof -
  let ?total = "int (length (matching (search_conditions query court year date_from date_to) db))"
  have p: "0 < per_page" using assms(2) by simp
  have "search_cases db query court year date_from date_to page per_page =
          Inr \<lparr>sr_total = ?total, sr_page = page, sr_per_page = per_page,
               sr_total_pages = (?total + per_page - 1) div per_page,
               sr_results = map format_result (sql_limit per_page (sql_offset ((page - 1) * per_page)
                 (matching (search_conditions query court year date_from date_to) db)))\<rparr>"
    using p by (simp add: search_cases_def Let_def select_where_matching)
  moreover have "(0 + per_page - 1) div per_page = 0"
    using p by (simp add: div_pos_pos_trivial)
  ultimately show ?thesis
    using ceil_div[OF p, of ?total] by auto
qed

theorem search_total_pages_witness:
  "(1::int) \<le> 2 \<and> (1::int) \<le> 2 \<and>
   (\<exists>r. search_cases [case_001, short_text_row, case_1999] [] None None None None 2 2 = Inr r \<and>
        sr_total r = 3 \<and> sr_total_pages r = 2 \<and> map resp_id (sr_results r) = [''case_003''])"
proof -
  have h: "(1::int) \<le> 2" by simp
  have m: "matching (search_conditions [] None None None None) [case_001, short_text_row, case_1999]
             = [case_001, short_text_row, case_1999]"
    by (simp add: matching_def search_conditions_def)
  from search_total_pages[OF h h, of "[case_001, short_text_row, case_1999]" "[]" None None None None]
  obtain r where r: "search_cases [case_001, short_text_row, case_1999] [] None None None None 2 2 = Inr r"
    "sr_total r = 3" "sr_total_pages r = \<lceil>real_of_int (sr_total r) / real_of_int 2\<rceil>"
    unfolding m by auto
  from r(2,3) have "sr_total_pages r = 2" by simp
  moreover from r(1) have "map resp_id (sr_results r) = [''case_003'']"
    by (auto simp: search_cases_def Let_def select_where_def search_conditions_def sql_limit_def
          sql_offset_def format_result_def case_1999_def)
  ultimately show ?thesis using r by (intro conjI exI[of _ r]) simp_all
qed

section \<open>Export\<close>

text \<open>
  C8. For a requested limit that is not negative, the rows fetched for an export are
  at most \<open>min limit 10000\<close>: as many as match, up to that cap. The row count that
  the CSV and the JSONL export return is the number of rows fetched, and that is the
  number of data records in the CSV text (one more with the header) and the number of
  lines of the JSONL text.
\<close>

theorem export_row_cap:
  assumes "0 \<le> limit"
  shows "int (length (fetch_export_rows db query court year date_from date_to limit)) \<le> min limit 10000
     \<and> length (fetch_export_rows db query court year date_from date_to limit) =
         min (length (matching (export_conditions query court year date_from date_to) db))
             (nat (min limit 10000))
     \<and> snd (export_cases_csv db query court year date_from date_to limit) =
         int (length (fetch_export_rows db query court year date_from date_to limit))
     \<and> csv_record_count (fst (export_cases_csv db query court year date_from date_to limit)) =
         Suc (length (fetch_export_rows db query court year date_from date_to limit))
     \<and> snd (export_cases_jsonl db query court year date_from date_to limit) =
         int (length (fetch_export_rows db query court year date_from date_to limit))
     \<and> length (text_lines (fst (export_cases_jsonl db query court year date_from date_to limit))) =
         length (fetch_export_rows db query court year date_from date_to limit)"
proof -
  let ?rows = "fetch_export_rows db query court year date_from date_to limit"
  have len: "length ?rows =
         min (length (matching (export_conditions query court year date_from date_to) db))
             (nat (min limit 10000))"
    using length_fetch_export_rows[OF assms] .
  have "int (min n (nat (min limit 10000))) \<le> min limit 10000" for n :: nat
    using assms by (auto simp: min_def)
  with len have cap: "int (length ?rows) \<le> min limit 10000"
    by (simp only:)
  have csv: "csv_record_count (fst (export_cases_csv db query court year date_from date_to limit))
               = Suc (length ?rows)"
    using csv_scan_rows[of "map csv_row ?rows"]
    by (simp add: export_cases_csv_def Let_def csv_record_count_def csv_scan_writerow comp_def)
  have "text_lines (join [CHR 0x0A] (map (\<lambda>c. json_dumps (case_obj c)) ?rows))
          = map (\<lambda>c. json_dumps (case_obj c)) ?rows"
    by (rule text_lines_join) (auto simp: json_dumps_plain json_dumps_nonempty)
  then have jl: "length (text_lines (fst (export_cases_jsonl db query court year date_from date_to limit)))
               = length ?rows"
    by (simp add: export_cases_jsonl_def Let_def)
  show ?thesis
    using len cap csv jl by (simp add: export_cases_csv_def export_cases_jsonl_def Let_def)
qed

theorem export_row_cap_witness:
  "(0::int) \<le> 50000
   \<and> length (matching (export_conditions [] None None None None) (replicate 10001 case_001)) = 10001
   \<and> length (fetch_export_rows (replicate 10001 case_001) [] None None None None 50000) = 10000
   \<and> snd (export_cases_csv (replicate 10001 case_001) [] None None None None 50000) = 10000
   \<and> csv_record_count (fst (export_cases_csv (replicate 10001 case_001) [] None None None None 50000)) = 10001
   \<and> snd (export_cases_jsonl (replicate 10001 case_001) [] None None None None 50000) = 10000
   \<and> length (text_lines (fst (export_cases_jsonl (replicate 10001 case_001) [] None None None None 50000))) = 10000"
proof -
  have h: "(0::int) \<le> 50000" by simp
  have m: "matching (export_conditions [] None None None None) db = db" for db
    by (simp add: matching_def export_conditions_def)
  have l: "length (replicate 10001 case_001) = 10001" by (simp only: length_replicate)
  have n: "min (10001::nat) (nat (min 50000 10000)) = 10000" by simp
  note w = export_row_cap[OF h, of "replicate 10001 case_001" "[]" None None None None,
      unfolded m l n]
  from w l show ?thesis unfolding m by (simp only: h) simp
qed

text \<open>
  C9. The CSV text starts with the header line
  \<open>id,title,citation,court,date,year,judges,headnote\<close>, followed by the data rows.
  Every data row has eight fields, and the last, the headnote, is the first 500
  characters of the row's headnote, so at most 500 characters long. The lines of the
  JSONL text are the JSON objects of the rows; the object of a row with a headnote ends
  with the member \<open>headnote\<close> holding the encoded headnote, which decodes to the
  whole headnote.
\<close>

theorem export_formats:
  "fst (export_cases_csv db query court year date_from date_to limit) =
     ''id,title,citation,court,date,year,judges,headnote'' @ [CHR 0x0D, CHR 0x0A] @
     concat (map (\<lambda>c. writerow (csv_row c))
       (fetch_export_rows db query court year date_from date_to limit))
   \<and> (\<forall>c \<in> set (fetch_export_rows db query court year date_from date_to limit).
         length (csv_row c) = 8 \<and>
         csv_row c ! 7 = take 500 (or_empty (case_headnote c)) \<and>
         length (csv_row c ! 7) \<le> 500)
   \<and> text_lines (fst (export_cases_jsonl db query court year date_from date_to limit)) =
       map (\<lambda>c. json_dumps (case_obj c))
         (fetch_export_rows db query court year date_from date_to limit)
   \<and> (\<forall>c \<in> set (fetch_export_rows db query court year date_from date_to limit).
         \<forall>h. case_headnote c = Some h \<longrightarrow>
           (\<exists>pre. json_dumps (case_obj c) =
              pre @ json_string ''headnote'' @ '': '' @ json_string h @ ''}'') \<and>
           json_decode_string (json_string h) = Some h)"
proof -
  let ?rows = "fetch_export_rows db query court year date_from date_to limit"
  have 1: "fst (export_cases_csv db query court year date_from date_to limit) =
     ''id,title,citation,court,date,year,judges,headnote'' @ [CHR 0x0D, CHR 0x0A] @
     concat (map (\<lambda>c. writerow (csv_row c)) ?rows)"
    using csv_header_line by (simp add: export_cases_csv_def Let_def)
  have 2: "length (csv_row c) = 8 \<and> csv_row c ! 7 = take 500 (or_empty (case_headnote c)) \<and>
         length (csv_row c ! 7) \<le> 500" for c
    using csv_row_headnote[of c] by simp
  have 3: "text_lines (fst (export_cases_jsonl db query court year date_from date_to limit)) =
       map (\<lambda>c. json_dumps (case_obj c)) ?rows"
    using text_lines_join[of "map (\<lambda>c. json_dumps (case_obj c)) ?rows"]
    by (auto simp: export_cases_jsonl_def Let_def json_dumps_plain json_dumps_nonempty)
  have 4: "(\<exists>pre. json_dumps (case_obj c) =
              pre @ json_string ''headnote'' @ '': '' @ json_string h @ ''}'') \<and>
           json_decode_string (json_string h) = Some h" if "case_headnote c = Some h" for c h
    using json_dumps_headnote[of c] that
    by (simp add: json_opt_str_def json_decode_string_roundtrip)
  from 1 2 3 4 show ?thesis by blast
qed

theorem export_formats_witness:
  "list_all (\<lambda>c. length (or_empty (case_headnote c)) = 600 \<and> length (csv_row c ! 7) = 500)
     (fetch_export_rows [long_headnote_row] [] None None None None 1000)
   \<and> fetch_export_rows [long_headnote_row] [] None None None None 1000 = [long_headnote_row]
   \<and> case_headnote long_headnote_row = Some (replicate 600 CHR ''a'')
   \<and> json_decode_string (json_string (replicate 600 CHR ''a'')) = Some (replicate 600 CHR ''a'')"
proof -
  have r: "fetch_export_rows [long_headnote_row] [] None None None None 1000 = [long_headnote_row]"
    by (simp add: fetch_export_rows_def export_conditions_def select_where_def sql_limit_def
          MAX_EXPORT_ROWS_def)
  have h: "case_headnote long_headnote_row = Some (replicate 600 CHR ''a'')"
    by (simp add: long_headnote_row_def)
  note w = export_formats[of "[long_headnote_row]" "[]" None None None None 1000, unfolded r]
  from w h have "csv_row long_headnote_row ! 7 = take 500 (replicate 600 CHR ''a'')"
    by (simp add: or_empty_def)
  then have "length (csv_row long_headnote_row ! 7) = 500"
    by (simp only: length_take length_replicate)
  moreover from w h
  have "json_decode_string (json_string (replicate 600 CHR ''a'')) = Some (replicate 600 CHR ''a'')"
    by simp
  ultimately show ?thesis
    unfolding r using h by (simp add: or_empty_def)
qed

section \<open>Court statistics\<close>

text \<open>
  C10. Every entry of the court statistics has a court name that is not empty: the
  court of some row, or \<open>Unknown\<close>. When some row has no court, the rows without
  court are counted in one entry named \<open>Unknown\<close>, and \<open>Unknown\<close> is among the
  names of the courts list, which are the names of the statistics in their order.
\<close>

theorem court_stats_unknown:
  "(\<forall>s \<in> set (get_court_stats db).
      stat_court s \<noteq> [] \<and>
      (stat_court s = ''Unknown'' \<or> (\<exists>c \<in> set db. case_court c = Some (stat_court s))))
   \<and> ((\<exists>c \<in> set db. case_court c = None) \<longrightarrow>
        \<lparr>stat_court = ''Unknown'',
         stat_count = length (filter (\<lambda>c. case_court c = None) db)\<rparr> \<in> set (get_court_stats db)
        \<and> ''Unknown'' \<in> set (list_courts db))
   \<and> list_courts db = map stat_court (get_court_stats db)"
proof -
  have a: "stat_court s \<noteq> [] \<and>
      (stat_court s = ''Unknown'' \<or> (\<exists>c \<in> set db. case_court c = Some (stat_court s)))"
    if "s \<in> set (get_court_stats db)" for s
  proof -
    from that obtain court where c: "court \<in> set (map case_court db)"
      "s = \<lparr>stat_court = (if truthy_str court then or_empty court else ''Unknown''),
             stat_count = length (filter (\<lambda>c. case_court c = court) db)\<rparr>"
      unfolding court_stats_entry by blast
    show ?thesis
    proof (cases "truthy_str court")
      case True
      then obtain name where "court = Some name" "name \<noteq> []"
        by (auto simp: truthy_str_def split: option.splits)
      with c show ?thesis by (auto simp: or_empty_def truthy_str_def)
    next
      case False
      with c show ?thesis by simp
    qed
  qed
  have b: "\<lparr>stat_court = ''Unknown'',
         stat_count = length (filter (\<lambda>c. case_court c = None) db)\<rparr> \<in> set (get_court_stats db)"
    if "\<exists>c \<in> set db. case_court c = None"
  proof -
    from that have "None \<in> set (map case_court db)" by force
    then show ?thesis
      unfolding court_stats_entry by (force simp: truthy_str_def)
  qed
  have c: "''Unknown'' \<in> set (list_courts db)" if "\<exists>c \<in> set db. case_court c = None"
    using b[OF that] unfolding list_courts_def set_map by force
  from a b c show ?thesis by (auto simp: list_courts_def)
qed

theorem court_stats_unknown_witness:
  "list_ex (\<lambda>c. case_court c = None) [no_court_row, case_001, no_court_row]
   \<and> get_court_stats [no_court_row, case_001, no_court_row] =
       [\<lparr>stat_court = ''Unknown'', stat_count = 2\<rparr>,
        \<lparr>stat_court = ''Supreme Court'', stat_count = 1\<rparr>]
   \<and> list_all (\<lambda>s. stat_court s \<noteq> []) (get_court_stats [no_court_row, case_001, no_court_row])
   \<and> \<lparr>stat_court = ''Unknown'', stat_count = 2\<rparr>
        \<in> set (get_court_stats [no_court_row, case_001, no_court_row])
   \<and> ''Unknown'' \<in> set (list_courts [no_court_row, case_001, no_court_row])"
proof -
  let ?db = "[no_court_row, case_001, no_court_row]"
  have h: "\<exists>c \<in> set ?db. case_court c = None" by (simp add: no_court_row_def)
  have n: "length (filter (\<lambda>c. case_court c = None) ?db) = 2"
    by (simp add: no_court_row_def case_001_def)
  have g: "get_court_stats ?db =
       [\<lparr>stat_court = ''Unknown'', stat_count = 2\<rparr>,
        \<lparr>stat_court = ''Supreme Court'', stat_count = 1\<rparr>]"
    by (simp add: get_court_stats_def order_by_count_desc_def no_court_row_def case_001_def
          truthy_str_def or_empty_def)
  note w = court_stats_unknown[of ?db, unfolded n]
  from w h have "\<lparr>stat_court = ''Unknown'', stat_count = 2\<rparr> \<in> set (get_court_stats ?db)"
    "''Unknown'' \<in> set (list_courts ?db)" by blast+
  moreover from w have "list_all (\<lambda>s. stat_court s \<noteq> []) (get_court_stats ?db)"
    unfolding list_all_iff by blast
  ultimately show ?thesis using h g by (simp add: list_ex_iff)
qed

end
